theory Spec2Isabelle
  imports Complex_Main "HOL-Library.Word" "HOL-Library.Sublist"
begin

section \<open>Emulator wrapper (src/python-old/emulator.py)\<close>

text \<open>
  Strings are byte strings (\<open>char list\<close>). Python's \<open>str.lower()\<close> is modelled on the
  ASCII letters only; a character outside ASCII is left as it is. No string with such a
  character lowercases (in Python) to one of the eight button names, so membership in
  \<open>VALID_BUTTONS\<close> after lowercasing is the same in the model and in Python.
\<close>

definition lower_char :: "char \<Rightarrow> char" where
  "lower_char c =
     (let n = (of_char c :: nat) in if 65 \<le> n \<and> n \<le> 90 then char_of (n + 32) else c)"

definition lower :: "string \<Rightarrow> string" where
  "lower s = map lower_char s"

definition VALID_BUTTONS :: "string list" where
  "VALID_BUTTONS =
     [''up'', ''down'', ''left'', ''right'', ''a'', ''b'', ''start'', ''select'']"

definition BUTTON_HOLD_FRAMES :: int where
  "BUTTON_HOLD_FRAMES = 8"

text \<open>
  The PyBoy object is outside the repository. Its input state is modelled by the list of
  the calls the wrapper has made on it, oldest first. A path is the list of its
  components from the root (the constructor resolves both paths, so they are absolute).
\<close>

datatype pyboy_call = Button string | ButtonRelease string | PyBoyTick

type_synonym bytes = "8 word list"
type_synonym path = "string list"

record Emulator =
  rom_path :: path
  save_state_path :: path
  screenshot_path :: path
  pyboy :: "pyboy_call list"
  held_button :: "string option"
  hold_frames_remaining :: int
  last_save_time :: real

text \<open>
  The emulator as the constructor leaves it when there is no save state to load; \<open>now\<close>
  is the clock at that moment.
\<close>

definition Emulator_init :: "path \<Rightarrow> path \<Rightarrow> path \<Rightarrow> real \<Rightarrow> Emulator" where
  "Emulator_init rom save shot now =
     \<lparr>rom_path = rom, save_state_path = save, screenshot_path = shot, pyboy = [],
      held_button = None, hold_frames_remaining = 0, last_save_time = now\<rparr>"

definition release_current_button :: "Emulator \<Rightarrow> Emulator" where
  "release_current_button e =
     (case held_button e of
        None \<Rightarrow> e
      | Some h \<Rightarrow>
          e\<lparr>pyboy := pyboy e @ [ButtonRelease h],
            held_button := None,
            hold_frames_remaining := 0\<rparr>)"

text \<open>\<open>press_button\<close> returns its boolean result and the emulator after the call.\<close>

definition press_button :: "Emulator \<Rightarrow> string \<Rightarrow> bool \<times> Emulator" where
  "press_button e button0 =
     (let button = lower button0 in
      if button \<notin> set VALID_BUTTONS then (False, e)
      else
        let e1 = (if held_button e \<noteq> None then release_current_button e else e)
        in (True,
            e1\<lparr>pyboy := pyboy e1 @ [Button button],
               held_button := Some button,
               hold_frames_remaining := BUTTON_HOLD_FRAMES\<rparr>))"

text \<open>
  \<open>tick\<close> advances PyBoy by one frame and handles the timed release. The audio block it
  returns comes from PyBoy and is an input of the loop that calls it.
\<close>

definition tick :: "Emulator \<Rightarrow> Emulator" where
  "tick e =
     (let e1 = e\<lparr>pyboy := pyboy e @ [PyBoyTick]\<rparr> in
      if hold_frames_remaining e1 > 0 then
        let e2 = e1\<lparr>hold_frames_remaining := hold_frames_remaining e1 - 1\<rparr> in
        if hold_frames_remaining e2 = 0 then release_current_button e2 else e2
      else e1)"

subsection \<open>Saving to disk: \<open>save_state\<close>, \<open>save_screenshot\<close>\<close>

text \<open>
  The disk is a map from paths to file contents. The name of a path is its last
  component, and the root itself has the empty name.
\<close>

type_synonym disk = "path \<Rightarrow> bytes option"

datatype py_error = KeyError | ValueError

definition path_name :: "path \<Rightarrow> string" where
  "path_name p = (if p = [] then [] else last p)"

text \<open>
  \<open>str.rfind\<close> for a single character: the index of its last occurrence, or \<open>-1\<close>.
\<close>

fun rfind :: "string \<Rightarrow> char \<Rightarrow> int" where
  "rfind [] c = -1"
| "rfind (x # xs) c =
     (let r = rfind xs c in
      if r \<noteq> -1 then r + 1 else if x = c then 0 else -1)"

text \<open>
  \<open>PurePath.suffix\<close>: the part of the name from its last dot on, when that dot is neither
  the first nor the last character of the name; otherwise the empty string.
\<close>

definition path_suffix :: "path \<Rightarrow> string" where
  "path_suffix p =
     (let name = path_name p; i = rfind name (CHR ''.'') in
      if 0 < i \<and> i < int (length name) - 1 then drop (nat i) name else [])"

text \<open>
  \<open>PurePath.with_suffix\<close>: raises \<open>ValueError\<close> for a suffix that holds a separator, that
  does not start with a dot or that is a lone dot, and for a path with an empty name.
\<close>

definition with_suffix :: "path \<Rightarrow> string \<Rightarrow> py_error + path" where
  "with_suffix p suffix' =
     (if CHR ''/'' \<in> set suffix' then Inl ValueError
      else if (suffix' \<noteq> [] \<and> hd suffix' \<noteq> CHR ''.'') \<or> suffix' = ''.'' then Inl ValueError
      else
        let name = path_name p in
        if name = [] then Inl ValueError
        else
          let old_suffix = path_suffix p;
              name' = (if old_suffix = [] then name @ suffix'
                       else take (length name - length old_suffix) name @ suffix')
          in Inr (butlast p @ [name']))"

text \<open>
  Where a save can fail. \<open>save_state\<close> opens the temporary file for writing (which
  creates or empties it), lets PyBoy write the state into it, closes it, and renames it
  onto the destination. A failed write leaves the first \<open>k\<close> bytes in the temporary file.
\<close>

datatype fault = NoFault | OpenFails | WriteFails nat | ReplaceFails

text \<open>
  \<open>Path.replace\<close>: an atomic rename. The source file must exist (it was just written).
\<close>

definition replace_file :: "disk \<Rightarrow> path \<Rightarrow> path \<Rightarrow> disk" where
  "replace_file d src dst = (d(src := None))(dst := d src)"

text \<open>
  \<open>save_state\<close>. \<open>state_bytes\<close> is what PyBoy serialises, \<open>flt\<close> where the call fails (if it
  does), \<open>now\<close> the clock when it succeeds. Every exception is caught and reported as
  the result \<open>False\<close>.
\<close>

definition save_state ::
  "Emulator \<Rightarrow> disk \<Rightarrow> bytes \<Rightarrow> fault \<Rightarrow> real \<Rightarrow> bool \<times> Emulator \<times> disk" where
  "save_state self d state_bytes flt now =
     (case with_suffix (save_state_path self) ''.tmp'' of
        Inl err \<Rightarrow> (False, self, d)
      | Inr temp_path \<Rightarrow>
          (case flt of
             OpenFails \<Rightarrow> (False, self, d)
           | WriteFails k \<Rightarrow> (False, self, d(temp_path \<mapsto> take k state_bytes))
           | ReplaceFails \<Rightarrow> (False, self, d(temp_path \<mapsto> state_bytes))
           | NoFault \<Rightarrow>
               (True, self\<lparr>last_save_time := now\<rparr>,
                replace_file (d(temp_path \<mapsto> state_bytes)) temp_path
                  (save_state_path self))))"

text \<open>
  \<open>save_screenshot\<close>. The image library writes the temporary file; when it fails it
  leaves there whatever it leaves (\<open>left\<close>: some bytes, or no file).
\<close>

datatype image_fault = ImageSaved | ImageSaveFails "bytes option" | ImageReplaceFails

definition save_screenshot ::
  "Emulator \<Rightarrow> disk \<Rightarrow> bytes \<Rightarrow> image_fault \<Rightarrow> bool \<times> disk" where
  "save_screenshot self d png flt =
     (case with_suffix (screenshot_path self) ''.tmp.png'' of
        Inl err \<Rightarrow> (False, d)
      | Inr temp_path \<Rightarrow>
          (case flt of
             ImageSaveFails left \<Rightarrow> (False, d(temp_path := left))
           | ImageReplaceFails \<Rightarrow> (False, d(temp_path \<mapsto> png))
           | ImageSaved \<Rightarrow>
               (True, replace_file (d(temp_path \<mapsto> png)) temp_path (screenshot_path self))))"

section \<open>RTMP streamer (src/python/compositor.py)\<close>

text \<open>
  Audio samples are 16-bit signed integers (\<open>numpy.int16\<close>); a frame is the byte string
  \<open>frame.tobytes()\<close>.
\<close>

type_synonym sample = "16 word"

definition AUDIO_SAMPLE_RATE :: nat where
  "AUDIO_SAMPLE_RATE = 48000"

definition AUDIO_CHANNELS :: nat where
  "AUDIO_CHANNELS = 2"

text \<open>The capacity of \<open>queue.Queue(maxsize=5)\<close>.\<close>

definition FRAME_QUEUE_MAXSIZE :: nat where
  "FRAME_QUEUE_MAXSIZE = 5"

text \<open>
  The position of a writer thread in its loop. Between two of these positions the other
  threads may run: a thread that has read the running flag at the head of its loop
  (\<open>LoopHead\<close>) is inside the loop body (\<open>InBody\<close>) until it comes back to the head.
\<close>

datatype thread_pc = NotStarted | Opening | LoopHead | InBody | Exited

datatype write_outcome = WriteOk | BrokenPipeError | OtherError

datatype pipe_write =
    VideoWrite bytes write_outcome
  | AudioWrite "sample list" write_outcome

record RTMPStreamer =
  running :: bool
  frame_queue :: "bytes list"
  audio_buffer :: "sample list"
  video_thread :: thread_pc
  audio_thread :: thread_pc
  audio_last_time :: real
  pipe_writes :: "pipe_write list"

text \<open>The streamer as the constructor leaves it.\<close>

definition RTMPStreamer_init :: RTMPStreamer where
  "RTMPStreamer_init =
     \<lparr>running = False, frame_queue = [], audio_buffer = [],
      video_thread = NotStarted, audio_thread = NotStarted,
      audio_last_time = 0, pipe_writes = []\<rparr>"

subsection \<open>\<open>send_frame\<close>\<close>

text \<open>
  \<open>render\<close> stands for \<open>compositor.render_frame(state).tobytes()\<close>; it is \<open>None\<close> when
  rendering raises. \<open>put_nowait\<close> raises \<open>queue.Full\<close> when the queue holds
  \<open>maxsize\<close> items. Nothing in \<open>send_frame\<close> waits.
\<close>

definition send_frame ::
  "('st \<Rightarrow> bytes option) \<Rightarrow> RTMPStreamer \<Rightarrow> 'st \<Rightarrow> bool \<times> RTMPStreamer" where
  "send_frame render self state =
     (if \<not> running self then (False, self)
      else
        case render state of
          None \<Rightarrow> (False, self)
        | Some frame_bytes \<Rightarrow>
            if length (frame_queue self) \<ge> FRAME_QUEUE_MAXSIZE then (False, self)
            else (True, self\<lparr>frame_queue := frame_queue self @ [frame_bytes]\<rparr>))"

subsection \<open>\<open>send_audio\<close>\<close>

text \<open>
  The audio handed to \<open>send_audio\<close> is either a numpy array of samples (it has
  \<open>tobytes\<close>) or raw bytes.
\<close>

datatype audio_data = NdArray "sample list" | RawBytes bytes

text \<open>
  \<open>ndarray.clip(lo, hi)\<close> on one element, and the conversion of a float to \<open>int16\<close>
  (\<open>astype\<close>), which drops the fraction (rounds towards zero).
\<close>

definition clip :: "real \<Rightarrow> real \<Rightarrow> real \<Rightarrow> real" where
  "clip lo hi x = min hi (max lo x)"

definition trunc_toward_zero :: "real \<Rightarrow> int" where
  "trunc_toward_zero x = (if 0 \<le> x then \<lfloor>x\<rfloor> else \<lceil>x\<rceil>)"

definition astype_int16 :: "real \<Rightarrow> sample" where
  "astype_int16 x = word_of_int (trunc_toward_zero x)"

text \<open>
  The boost of one sample. The arithmetic is numpy's \<open>float32\<close>, which is not code of
  this repository: \<open>rnd\<close> is the rounding of a real number to \<open>float32\<close>. The sample is
  converted exactly, the gain (a finite Python float) is rounded to \<open>float32\<close>, and the
  product is rounded again.
\<close>

definition boost_sample :: "(real \<Rightarrow> real) \<Rightarrow> real \<Rightarrow> sample \<Rightarrow> sample" where
  "boost_sample rnd volume_boost x =
     astype_int16 (clip (-32768) 32767 (rnd (real_of_int (sint x) * rnd volume_boost)))"

text \<open>
  \<open>np.frombuffer(bytes, dtype=np.int16)\<close> on a little-endian machine: two bytes per
  sample, low byte first; \<open>ValueError\<close> for an odd number of bytes.
\<close>

fun frombuffer :: "bytes \<Rightarrow> py_error + sample list" where
  "frombuffer [] = Inr []"
| "frombuffer [b] = Inl ValueError"
| "frombuffer (lo # hi # rest) =
     (case frombuffer rest of
        Inl err \<Rightarrow> Inl err
      | Inr xs \<Rightarrow> Inr (word_cat hi lo # xs))"

text \<open>The samples \<open>send_audio\<close> computes from its argument before it takes the lock.\<close>

definition samples_of ::
  "(real \<Rightarrow> real) \<Rightarrow> audio_data \<Rightarrow> real \<Rightarrow> py_error + sample list" where
  "samples_of rnd audio volume_boost =
     (case audio of
        NdArray xs \<Rightarrow> Inr (map (boost_sample rnd volume_boost) xs)
      | RawBytes bs \<Rightarrow> frombuffer bs)"

definition max_samples :: nat where
  "max_samples = AUDIO_SAMPLE_RATE * AUDIO_CHANNELS div 2"

text \<open>
  The slice \<open>buffer[-max_samples:]\<close> for a positive \<open>max_samples\<close> (Python reads
  \<open>buffer[-0:]\<close> as the whole buffer).
\<close>

definition last_n :: "nat \<Rightarrow> 'a list \<Rightarrow> 'a list" where
  "last_n n xs = (if n = 0 then xs else drop (length xs - n) xs)"

definition send_audio ::
  "(real \<Rightarrow> real) \<Rightarrow> RTMPStreamer \<Rightarrow> audio_data \<Rightarrow> real \<Rightarrow> bool \<times> RTMPStreamer" where
  "send_audio rnd self audio volume_boost =
     (if \<not> running self then (False, self)
      else
        case samples_of rnd audio volume_boost of
          Inl err \<Rightarrow> (False, self)
        | Inr samples \<Rightarrow>
            let buf = audio_buffer self @ samples;
                buf' = (if length buf > max_samples then last_n max_samples buf else buf)
            in (True, self\<lparr>audio_buffer := buf'\<rparr>))"

text \<open>
  A sequence of \<open>send_audio\<close> calls, each with its audio and its gain, and the samples
  those calls append: the samples a call computes, nothing for a call whose conversion
  raises.
\<close>

fun send_audio_calls ::
  "(real \<Rightarrow> real) \<Rightarrow> RTMPStreamer \<Rightarrow> (audio_data \<times> real) list \<Rightarrow> RTMPStreamer" where
  "send_audio_calls rnd self [] = self"
| "send_audio_calls rnd self ((audio, volume_boost) # rest) =
     send_audio_calls rnd (snd (send_audio rnd self audio volume_boost)) rest"

fun appended :: "(real \<Rightarrow> real) \<Rightarrow> (audio_data \<times> real) list \<Rightarrow> sample list" where
  "appended rnd [] = []"
| "appended rnd ((audio, volume_boost) # rest) =
     (case samples_of rnd audio volume_boost of Inl err \<Rightarrow> [] | Inr xs \<Rightarrow> xs)
     @ appended rnd rest"

subsection \<open>The writer threads\<close>

text \<open>
  The extraction of one chunk in \<open>_audio_writer_loop\<close> (the block under the audio lock):
  the chunk and the buffer left.
\<close>

definition pop_chunk :: "nat \<Rightarrow> sample list \<Rightarrow> sample list \<times> sample list" where
  "pop_chunk samples_per_chunk buf =
     (if length buf \<ge> samples_per_chunk then
        (take samples_per_chunk buf, drop samples_per_chunk buf)
      else if length buf > 0 then
        (buf @ replicate (samples_per_chunk - length buf) 0, [])
      else (replicate samples_per_chunk 0, []))"

definition samples_per_chunk :: nat where
  "samples_per_chunk = AUDIO_SAMPLE_RATE * AUDIO_CHANNELS div 30"

definition chunk_interval :: real where
  "chunk_interval = 1 / 30"

text \<open>
  One step of the video writer thread. \<open>open_ok\<close> says whether opening the pipe
  succeeds, \<open>outcome\<close> what the write (and flush) of a frame does. At \<open>InBody\<close> the thread
  is in \<open>queue.get(timeout=0.1)\<close>: with an empty queue the step is the timeout.
\<close>

definition video_writer_step :: "bool \<Rightarrow> write_outcome \<Rightarrow> RTMPStreamer \<Rightarrow> RTMPStreamer" where
  "video_writer_step open_ok outcome self =
     (case video_thread self of
        Opening \<Rightarrow>
          if open_ok then self\<lparr>video_thread := LoopHead\<rparr>
          else self\<lparr>running := False, video_thread := Exited\<rparr>
      | LoopHead \<Rightarrow>
          if running self then self\<lparr>video_thread := InBody\<rparr>
          else self\<lparr>video_thread := Exited\<rparr>
      | InBody \<Rightarrow>
          (case frame_queue self of
             [] \<Rightarrow> self\<lparr>video_thread := LoopHead\<rparr>
           | frame_bytes # rest \<Rightarrow>
               let s1 = self\<lparr>frame_queue := rest,
                             pipe_writes := pipe_writes self @ [VideoWrite frame_bytes outcome]\<rparr>
               in (case outcome of
                     WriteOk \<Rightarrow> s1\<lparr>video_thread := LoopHead\<rparr>
                   | BrokenPipeError \<Rightarrow> s1\<lparr>running := False, video_thread := Exited\<rparr>
                   | OtherError \<Rightarrow> s1\<lparr>running := False, video_thread := Exited\<rparr>))
      | NotStarted \<Rightarrow> self
      | Exited \<Rightarrow> self)"

text \<open>
  One step of the audio writer thread; \<open>now\<close> is \<open>time.monotonic()\<close>. When the cadence
  interval has not passed the body only sleeps.
\<close>

definition audio_writer_step ::
  "bool \<Rightarrow> real \<Rightarrow> write_outcome \<Rightarrow> RTMPStreamer \<Rightarrow> RTMPStreamer" where
  "audio_writer_step open_ok now outcome self =
     (case audio_thread self of
        Opening \<Rightarrow>
          if open_ok then self\<lparr>audio_thread := LoopHead, audio_last_time := now\<rparr>
          else self\<lparr>running := False, audio_thread := Exited\<rparr>
      | LoopHead \<Rightarrow>
          if running self then self\<lparr>audio_thread := InBody\<rparr>
          else self\<lparr>audio_thread := Exited\<rparr>
      | InBody \<Rightarrow>
          if now - audio_last_time self \<ge> chunk_interval then
            let (chunk, buf') = pop_chunk samples_per_chunk (audio_buffer self);
                s1 = self\<lparr>audio_last_time := now, audio_buffer := buf',
                          pipe_writes := pipe_writes self @ [AudioWrite chunk outcome]\<rparr>
            in (case outcome of
                  WriteOk \<Rightarrow> s1\<lparr>audio_thread := LoopHead\<rparr>
                | BrokenPipeError \<Rightarrow> s1\<lparr>running := False, audio_thread := Exited\<rparr>
                | OtherError \<Rightarrow> s1\<lparr>running := False, audio_thread := Exited\<rparr>)
          else self\<lparr>audio_thread := LoopHead\<rparr>
      | NotStarted \<Rightarrow> self
      | Exited \<Rightarrow> self)"

text \<open>
  \<open>start\<close> and \<open>stop\<close>, as far as the flag and the threads go (the encoder process and
  the pipe files are not modelled). \<open>launched\<close> says whether the encoder process could
  be started.
\<close>

definition start :: "bool \<Rightarrow> bool \<Rightarrow> RTMPStreamer \<Rightarrow> bool \<times> RTMPStreamer" where
  "start has_url launched self =
     (if \<not> has_url then (False, self)
      else if \<not> launched then (False, self)
      else (True, self\<lparr>running := True, video_thread := Opening, audio_thread := Opening\<rparr>))"

definition stop :: "RTMPStreamer \<Rightarrow> RTMPStreamer" where
  "stop self = self\<lparr>running := False\<rparr>"

text \<open>
  What can happen within a session, after \<open>start\<close>: a step of either writer thread, a
  call of \<open>send_frame\<close> or \<open>send_audio\<close> from the main thread, or \<open>stop\<close>. A session is
  run under a schedule, the list of what happens, in order.
\<close>

datatype session_event =
    VideoStep bool write_outcome
  | AudioStep bool real write_outcome
  | SendFrame "bytes option"
  | SendAudio audio_data real
  | Stop

definition session_step ::
  "(real \<Rightarrow> real) \<Rightarrow> RTMPStreamer \<Rightarrow> session_event \<Rightarrow> RTMPStreamer" where
  "session_step rnd self ev =
     (case ev of
        VideoStep open_ok outcome \<Rightarrow> video_writer_step open_ok outcome self
      | AudioStep open_ok now outcome \<Rightarrow> audio_writer_step open_ok now outcome self
      | SendFrame rendered \<Rightarrow> snd (send_frame (\<lambda>u. rendered) self ())
      | SendAudio audio volume_boost \<Rightarrow> snd (send_audio rnd self audio volume_boost)
      | Stop \<Rightarrow> stop self)"

definition run_session ::
  "(real \<Rightarrow> real) \<Rightarrow> RTMPStreamer \<Rightarrow> session_event list \<Rightarrow> RTMPStreamer" where
  "run_session rnd self evs = foldl (session_step rnd) self evs"

text \<open>The write attempts of a thread recorded in a list of pipe writes.\<close>

fun is_video_write :: "pipe_write \<Rightarrow> bool" where
  "is_video_write (VideoWrite f r) = True"
| "is_video_write (AudioWrite c r) = False"

definition video_writes :: "pipe_write list \<Rightarrow> nat" where
  "video_writes ws = length (filter is_video_write ws)"

definition audio_writes :: "pipe_write list \<Rightarrow> nat" where
  "audio_writes ws = length (filter (\<lambda>w. \<not> is_video_write w) ws)"

text \<open>
  The writes a thread can still make once the flag is false: one when it is inside its
  loop body (it read the flag before it went false), none otherwise.
\<close>

definition video_in_flight :: "RTMPStreamer \<Rightarrow> nat" where
  "video_in_flight s = (if video_thread s = InBody then 1 else 0)"

definition audio_in_flight :: "RTMPStreamer \<Rightarrow> nat" where
  "audio_in_flight s = (if audio_thread s = InBody then 1 else 0)"

text \<open>
  A schedule for a concrete run: both threads open their pipes, a frame is queued, both
  threads read the flag (true) at the head of their loops, and then the audio write
  fails with a broken pipe.
\<close>

definition broken_audio_schedule :: "session_event list" where
  "broken_audio_schedule =
     [VideoStep True WriteOk, AudioStep True 0 WriteOk, SendFrame (Some [1]),
      VideoStep True WriteOk, AudioStep True 0 WriteOk, AudioStep True 1 BrokenPipeError]"

section \<open>Orchestrator (src/python-old/main.py)\<close>

text \<open>
  The status document of the poll. A key that is read with a default, or with \<open>t[...]\<close>,
  tells three cases apart: the key is missing, its value is null, or it has a value. A
  key read with \<open>get\<close> and no default gives \<open>None\<close> both when it is missing and when it
  is null, so such a field is an option.
\<close>

datatype 'a json_field = Missing | Null | Present 'a

text \<open>What Python holds after reading a key that is there: \<open>None\<close> for null.\<close>

fun field_value :: "'a json_field \<Rightarrow> 'a option" where
  "field_value Missing = None"
| "field_value Null = None"
| "field_value (Present v) = Some v"

text \<open>\<open>d.get(key, default)\<close>: the default only when the key is missing.\<close>

fun get_default :: "'a json_field \<Rightarrow> 'a \<Rightarrow> 'a option" where
  "get_default Missing d = Some d"
| "get_default Null d = None"
| "get_default (Present v) d = Some v"

text \<open>
  A tally is a dictionary whose keys \<open>button\<close>, \<open>count\<close> and \<open>percentage\<close> are read with
  \<open>t[...]\<close> (a missing key raises \<open>KeyError\<close>) and whose key \<open>voters\<close> is read with the
  default \<open>[]\<close>. \<open>previousResult\<close> is \<open>None\<close> when the key is missing or its value is
  falsy (null or an empty dictionary). \<open>currentWindow\<close> and \<open>allTallies\<close>, when present,
  are a dictionary and a list; when missing they default to the empty ones.
\<close>

record tally_json =
  json_button :: "string json_field"
  json_count :: "int json_field"
  json_percentage :: "int json_field"
  json_voters :: "string list json_field"

record VoteTally =
  tally_button :: "string option"
  tally_count :: "int option"
  tally_percentage :: "int option"
  tally_voters :: "string list option"

record prev_result =
  windowId :: "int option"
  winner :: "string option"
  totalVotes :: "int json_field"

record status =
  allTallies :: "tally_json list"
  timeRemainingSeconds :: "int json_field"
  previousResult :: "prev_result option"

definition parse_tally :: "tally_json \<Rightarrow> py_error + VoteTally" where
  "parse_tally t =
     (if json_button t = Missing \<or> json_count t = Missing \<or> json_percentage t = Missing
      then Inl KeyError
      else
        Inr \<lparr>tally_button = field_value (json_button t),
             tally_count = field_value (json_count t),
             tally_percentage = field_value (json_percentage t),
             tally_voters = get_default (json_voters t) []\<rparr>)"

fun parse_tallies :: "tally_json list \<Rightarrow> py_error + VoteTally list" where
  "parse_tallies [] = Inr []"
| "parse_tallies (t # ts) =
     (case parse_tally t of
        Inl err \<Rightarrow> Inl err
      | Inr v \<Rightarrow> (case parse_tallies ts of Inl err \<Rightarrow> Inl err | Inr vs \<Rightarrow> Inr (v # vs)))"

text \<open>
  The calls the orchestrator makes on its collaborators, in order. This list is not a
  field of the class: it records, for the properties below, each call of
  \<open>emulator.press_button\<close> (with the window identifier it was made for) and each call
  of \<open>save_screenshot\<close> and \<open>save_state\<close> by the place it is made from.
\<close>

datatype call =
    Inject "int option" string
  | PeriodicScreenshot
  | PostMoveScreenshot
  | AutoSave

record ClawPlaysPokemon =
  emulator :: Emulator
  rtmp_streamer :: "RTMPStreamer option"
  last_window_id :: "int option"
  last_winner :: "string option"
  last_winner_votes :: "int option"
  current_tallies :: "VoteTally list"
  time_remaining :: "int option"
  post_move_screenshot_frames :: int
  calls :: "call list"

text \<open>The orchestrator as its constructor leaves it, for a given emulator and streamer.\<close>

definition ClawPlaysPokemon_init ::
  "Emulator \<Rightarrow> RTMPStreamer option \<Rightarrow> ClawPlaysPokemon" where
  "ClawPlaysPokemon_init e r =
     \<lparr>emulator = e, rtmp_streamer = r, last_window_id = None, last_winner = None,
      last_winner_votes = Some 0, current_tallies = [], time_remaining = Some 10,
      post_move_screenshot_frames = 0, calls = []\<rparr>"

text \<open>
  \<open>update_state_from_api\<close>. The tallies are built before anything is assigned, so a
  \<open>KeyError\<close> leaves the object as it was.
\<close>

definition update_state_from_api ::
  "ClawPlaysPokemon \<Rightarrow> status \<Rightarrow> py_error + ClawPlaysPokemon" where
  "update_state_from_api self st =
     (case parse_tallies (allTallies st) of
        Inl err \<Rightarrow> Inl err
      | Inr ts \<Rightarrow>
          let s1 = self\<lparr>current_tallies := ts,
                        time_remaining := get_default (timeRemainingSeconds st) 10\<rparr>
          in
          (case previousResult st of
             None \<Rightarrow> Inr s1
           | Some prev \<Rightarrow>
               if windowId prev \<noteq> last_window_id s1 then
                 let s2 = s1\<lparr>last_window_id := windowId prev\<rparr> in
                 (case winner prev of
                    None \<Rightarrow> Inr s2
                  | Some w \<Rightarrow>
                      if w = [] then Inr s2
                      else
                        Inr (s2\<lparr>last_winner := Some w,
                                last_winner_votes := get_default (totalVotes prev) 0,
                                emulator := snd (press_button (emulator s2) w),
                                calls := calls s2 @ [Inject (windowId prev) w],
                                post_move_screenshot_frames := 20\<rparr>))
               else Inr s1))"

text \<open>
  The body of \<open>vote_poll_loop\<close>: a failed fetch (or an empty status document) is
  skipped. The voters fetched afterwards only feed the renderer and are left out.
\<close>

definition vote_poll_body ::
  "ClawPlaysPokemon \<Rightarrow> status option \<Rightarrow> py_error + ClawPlaysPokemon" where
  "vote_poll_body self fetched =
     (case fetched of None \<Rightarrow> Inr self | Some st \<Rightarrow> update_state_from_api self st)"

text \<open>
  The body of \<open>emulator_loop\<close>, one iteration. \<open>loop_start\<close> is the clock at its start,
  \<open>audio\<close> the block the emulator returns for the tick. The two timers are the loop's
  local variables. The boolean results of the saves are not used by the loop; their
  effect on the disk is \<open>save_screenshot\<close> and \<open>save_state\<close> above.
\<close>

definition SCREENSHOT_UPDATE_INTERVAL :: real where
  "SCREENSHOT_UPDATE_INTERVAL = 1 / 10"

record loop_config =
  AUDIO_VOLUME_BOOST :: real
  SAVE_STATE_INTERVAL :: real

record loop_timers =
  last_screenshot_time :: real
  last_auto_save_time :: real

definition emulator_loop_body ::
  "(real \<Rightarrow> real) \<Rightarrow> loop_config \<Rightarrow> real \<Rightarrow> audio_data \<Rightarrow>
   ClawPlaysPokemon \<times> loop_timers \<Rightarrow> ClawPlaysPokemon \<times> loop_timers" where
  "emulator_loop_body rnd cfg loop_start audio st =
     (let (self, tm) = st;
          s1 = self\<lparr>emulator := tick (emulator self)\<rparr>;
          s2 = (case rtmp_streamer s1 of
                  None \<Rightarrow> s1
                | Some r \<Rightarrow>
                    if running r then
                      s1\<lparr>rtmp_streamer :=
                           Some (snd (send_audio rnd r audio (AUDIO_VOLUME_BOOST cfg)))\<rparr>
                    else s1);
          (s3, tm3) =
            (if loop_start - last_screenshot_time tm \<ge> SCREENSHOT_UPDATE_INTERVAL then
               (s2\<lparr>calls := calls s2 @ [PeriodicScreenshot]\<rparr>,
                tm\<lparr>last_screenshot_time := loop_start\<rparr>)
             else (s2, tm));
          (s4, tm4) =
            (if post_move_screenshot_frames s3 > 0 then
               let s3' = s3\<lparr>post_move_screenshot_frames :=
                               post_move_screenshot_frames s3 - 1\<rparr> in
               if post_move_screenshot_frames s3' = 0 then
                 (s3'\<lparr>calls := calls s3' @ [PostMoveScreenshot]\<rparr>,
                  tm3\<lparr>last_screenshot_time := loop_start\<rparr>)
               else (s3', tm3)
             else (s3, tm3))
      in
        if loop_start - last_auto_save_time tm4 \<ge> SAVE_STATE_INTERVAL cfg then
          (s4\<lparr>calls := calls s4 @ [AutoSave]\<rparr>, tm4\<lparr>last_auto_save_time := loop_start\<rparr>)
        else (s4, tm4))"

text \<open>
  The loops are coroutines of one event loop: a body runs without interruption between
  two of its waits, so a session is a sequence of whole bodies. The poll loop has no
  handler for an exception of \<open>update_state_from_api\<close>: it ends the session, with the
  state as it was before that poll.
\<close>

fun vote_poll_loop ::
  "ClawPlaysPokemon \<Rightarrow> status option list \<Rightarrow> ClawPlaysPokemon \<times> py_error option" where
  "vote_poll_loop self [] = (self, None)"
| "vote_poll_loop self (fetched # rest) =
     (case vote_poll_body self fetched of
        Inl err \<Rightarrow> (self, Some err)
      | Inr self' \<Rightarrow> vote_poll_loop self' rest)"

fun emulator_loop ::
  "(real \<Rightarrow> real) \<Rightarrow> loop_config \<Rightarrow> ClawPlaysPokemon \<times> loop_timers \<Rightarrow>
   (real \<times> audio_data) list \<Rightarrow> ClawPlaysPokemon \<times> loop_timers" where
  "emulator_loop rnd cfg st [] = st"
| "emulator_loop rnd cfg st ((loop_start, audio) # rest) =
     emulator_loop rnd cfg (emulator_loop_body rnd cfg loop_start audio st) rest"

text \<open>
  Both loops together: a session is a sequence of bodies, each of the poll loop or of the
  emulator loop, in the order the event loop runs them.
\<close>

datatype loop_body = PollBody "status option" | EmulatorBody real audio_data

fun run_loops ::
  "(real \<Rightarrow> real) \<Rightarrow> loop_config \<Rightarrow> ClawPlaysPokemon \<times> loop_timers \<Rightarrow> loop_body list \<Rightarrow>
   (ClawPlaysPokemon \<times> loop_timers) \<times> py_error option" where
  "run_loops rnd cfg st [] = (st, None)"
| "run_loops rnd cfg st (PollBody fetched # rest) =
     (case vote_poll_body (fst st) fetched of
        Inl err \<Rightarrow> (st, Some err)
      | Inr self' \<Rightarrow> run_loops rnd cfg (self', snd st) rest)"
| "run_loops rnd cfg st (EmulatorBody loop_start audio # rest) =
     run_loops rnd cfg (emulator_loop_body rnd cfg loop_start audio st) rest"

text \<open>
  The bodies that are iterations of the emulator loop, and the number of all calls of
  \<open>press_button\<close> made so far.
\<close>

fun is_emulator_body :: "loop_body \<Rightarrow> bool" where
  "is_emulator_body (EmulatorBody loop_start audio) = True"
| "is_emulator_body (PollBody fetched) = False"

fun is_inject :: "call \<Rightarrow> bool" where
  "is_inject (Inject w b) = True"
| "is_inject PeriodicScreenshot = False"
| "is_inject PostMoveScreenshot = False"
| "is_inject AutoSave = False"

definition total_injections :: "ClawPlaysPokemon \<Rightarrow> nat" where
  "total_injections self = length (filter is_inject (calls self))"

text \<open>The calls of \<open>press_button\<close> made for window identifier \<open>w\<close>.\<close>

fun is_inject_for :: "int option \<Rightarrow> call \<Rightarrow> bool" where
  "is_inject_for w (Inject w' b) = (w' = w)"
| "is_inject_for w PeriodicScreenshot = False"
| "is_inject_for w PostMoveScreenshot = False"
| "is_inject_for w AutoSave = False"

definition injections :: "int option \<Rightarrow> ClawPlaysPokemon \<Rightarrow> nat" where
  "injections w self = length (filter (is_inject_for w) (calls self))"

definition post_move_captures :: "ClawPlaysPokemon \<Rightarrow> nat" where
  "post_move_captures self = length (filter (\<lambda>c. c = PostMoveScreenshot) (calls self))"

text \<open>
  The identifiers the polls carry, in order (a poll with no status or no previous
  result carries none), and how often that sequence changes to \<open>w\<close> from another
  identifier, \<open>prev\<close> being the identifier before the sequence.
\<close>

fun observed :: "status option list \<Rightarrow> int option list" where
  "observed [] = []"
| "observed (None # rest) = observed rest"
| "observed (Some st # rest) =
     (case previousResult st of
        None \<Rightarrow> observed rest
      | Some prev \<Rightarrow> windowId prev # observed rest)"

fun changes_to :: "int option \<Rightarrow> int option \<Rightarrow> int option list \<Rightarrow> nat" where
  "changes_to w prev [] = 0"
| "changes_to w prev (x # xs) =
     (if x = w \<and> prev \<noteq> w then 1 else 0) + changes_to w x xs"

text \<open>
  Data for concrete runs: a session as the constructors leave it (no button held, no
  streamer), and a poll whose previous result carries a window identifier, a winner (or
  none) and a vote total.
\<close>

definition example_emulator :: Emulator where
  "example_emulator =
     Emulator_init [''roms'', ''pokemon_blue.gb''] [''data'', ''pokemon.save'']
       [''data'', ''screenshot.png''] 0"

definition fresh_session :: ClawPlaysPokemon where
  "fresh_session = ClawPlaysPokemon_init example_emulator None"

definition poll_result :: "int \<Rightarrow> string option \<Rightarrow> int \<Rightarrow> status" where
  "poll_result wid win votes =
     \<lparr>allTallies = [], timeRemainingSeconds = Present 5,
      previousResult =
        Some \<lparr>windowId = Some wid, winner = win, totalVotes = Present votes\<rparr>\<rparr>"

section \<open>Properties of the emulator wrapper\<close>

lemma lower_char_idem: "lower_char (lower_char c) = lower_char c"
proof (cases "65 \<le> (of_char c :: nat) \<and> (of_char c :: nat) \<le> 90")
  case True
  then have "(of_char (char_of (of_char c + 32 :: nat)) :: nat) = of_char c + 32"
    by (simp add: of_char_of)
  with True show ?thesis
    by (simp add: lower_char_def Let_def)
next
  case False
  then have "lower_char c = c"
    by (auto simp add: lower_char_def Let_def)
  then show ?thesis
    by simp
qed

lemma lower_idem: "lower (lower s) = lower s"
  by (simp add: lower_def lower_char_idem)

lemma lower_examples:
  "lower ''A'' = ''a''" "lower ''Start'' = ''start''" "lower ''x'' = ''x''"
  "lower ''SELECT'' = ''select''" "lower ''a'' = ''a''" "lower ''start'' = ''start''"
  by code_simp+

text \<open>
  Claim C6. For every button string \<open>b\<close>: when \<open>b\<close> (read without regard to case, as the
  code reads it) is not one of the valid buttons, \<open>press_button\<close> returns false and
  leaves the emulator (held button, hold counter, PyBoy input) as it was. When it is one,
  the held button, if any, is released first, then the button is pressed, the hold
  counter is set to 8, and the result is true.
\<close>

theorem press_button_spec:
  "(lower b \<notin> set VALID_BUTTONS \<longrightarrow> press_button e b = (False, e)) \<and>
   (lower b \<in> set VALID_BUTTONS \<longrightarrow>
      press_button e b =
        (True,
         e\<lparr>pyboy := pyboy e
                   @ (case held_button e of None \<Rightarrow> [] | Some h \<Rightarrow> [ButtonRelease h])
                   @ [Button (lower b)],
           held_button := Some (lower b),
           hold_frames_remaining := 8\<rparr>))"
  by (cases "held_button e")
     (simp_all add: press_button_def release_current_button_def Let_def
        BUTTON_HOLD_FRAMES_def)

theorem press_button_spec_witness:
  "press_button
     (example_emulator\<lparr>pyboy := [Button ''b''], held_button := Some ''b'',
        hold_frames_remaining := 3\<rparr>) ''x''
     = (False,
        example_emulator\<lparr>pyboy := [Button ''b''], held_button := Some ''b'',
          hold_frames_remaining := 3\<rparr>) \<and>
   press_button
     (example_emulator\<lparr>pyboy := [Button ''b''], held_button := Some ''b'',
        hold_frames_remaining := 3\<rparr>) ''A''
     = (True,
        example_emulator\<lparr>pyboy := [Button ''b'', ButtonRelease ''b'', Button ''a''],
          held_button := Some ''a'', hold_frames_remaining := 8\<rparr>)"
  using
    press_button_spec [of "''x''"
      "example_emulator\<lparr>pyboy := [Button ''b''], held_button := Some ''b'',
         hold_frames_remaining := 3\<rparr>"]
    press_button_spec [of "''A''"
      "example_emulator\<lparr>pyboy := [Button ''b''], held_button := Some ''b'',
         hold_frames_remaining := 3\<rparr>"]
  by (simp add: lower_examples VALID_BUTTONS_def)

text \<open>
  Claim C10. Button matching is case-insensitive: \<open>press_button\<close> on \<open>b\<close> is
  \<open>press_button\<close> on the lowercased \<open>b\<close>, and every string whose lowercase form is a valid
  button is accepted with result true.
\<close>

theorem press_button_case_insensitive:
  "press_button e b = press_button e (lower b) \<and>
   (lower b \<in> set VALID_BUTTONS \<longrightarrow> fst (press_button e b))"
  by (simp add: press_button_def Let_def lower_idem)

theorem press_button_case_insensitive_witness:
  "press_button example_emulator ''Start'' = press_button example_emulator ''start'' \<and>
   fst (press_button example_emulator ''Start'') \<and>
   fst (press_button example_emulator ''A'')"
  using
    press_button_case_insensitive [of example_emulator "''Start''"]
    press_button_case_insensitive [of example_emulator "''A''"]
  by (simp add: lower_examples VALID_BUTTONS_def press_button_def Let_def)

section \<open>Properties of the streamer\<close>

subsection \<open>The chunk extraction of the audio writer\<close>

text \<open>
  Claim C2. For every buffer and every chunk size \<open>n\<close>, the extraction returns exactly
  \<open>n\<close> samples. With at least \<open>n\<close> samples buffered it returns the oldest \<open>n\<close> and
  removes them; with some but fewer than \<open>n\<close> it returns them followed by zeros up to
  length \<open>n\<close> and leaves the buffer empty; with none it returns \<open>n\<close> zeros.
\<close>

theorem pop_chunk_spec:
  "length (fst (pop_chunk n buf)) = n \<and>
   (n \<le> length buf \<longrightarrow> pop_chunk n buf = (take n buf, drop n buf)) \<and>
   (0 < length buf \<and> length buf < n \<longrightarrow>
      pop_chunk n buf = (buf @ replicate (n - length buf) 0, [])) \<and>
   (buf = [] \<longrightarrow> pop_chunk n buf = (replicate n 0, []))"
  by (auto simp add: pop_chunk_def)

theorem pop_chunk_spec_witness:
  "pop_chunk 2 [5, 6, 7] = ([5, 6], [7]) \<and>
   pop_chunk 3 [5] = ([5, 0, 0], []) \<and>
   pop_chunk 2 [] = ([0, 0], []) \<and>
   length (fst (pop_chunk 2 [5, 6, 7])) = 2"
  using pop_chunk_spec [of 2 "[5, 6, 7]"] pop_chunk_spec [of 3 "[5]"] pop_chunk_spec [of 2 "[]"]
  by (simp add: numeral_2_eq_2 numeral_3_eq_3)

subsection \<open>The frame queue\<close>

text \<open>
  Claim C5, as stated, fails: \<open>send_frame\<close> first looks at the running flag, and a
  streamer that is not running refuses the frame although its queue holds fewer than
  five. Here the streamer is the one the constructor leaves, with an empty queue.
\<close>

theorem send_frame_not_running_counterexample:
  "length (frame_queue RTMPStreamer_init) < 5 \<and>
   send_frame Some RTMPStreamer_init [1, 2, 3] = (False, RTMPStreamer_init)"
  by (simp add: send_frame_def RTMPStreamer_init_def)

text \<open>
  Claim C5, amended. \<open>send_frame\<close> on a streamer that is not running, or with a frame
  that fails to render, returns false and leaves the streamer unchanged. On a running
  streamer with a rendered frame: with five (or more) frames queued it returns false and
  leaves the queue unchanged; with fewer than five it returns true and the queue is the
  old one with the new frame at its tail. It is a total function: it never waits.
\<close>

theorem send_frame_spec:
  "(\<not> running self \<longrightarrow> send_frame render self st = (False, self)) \<and>
   (render st = None \<longrightarrow> send_frame render self st = (False, self)) \<and>
   (running self \<and> render st = Some f \<and> length (frame_queue self) \<ge> 5 \<longrightarrow>
      send_frame render self st = (False, self)) \<and>
   (running self \<and> render st = Some f \<and> length (frame_queue self) < 5 \<longrightarrow>
      send_frame render self st = (True, self\<lparr>frame_queue := frame_queue self @ [f]\<rparr>))"
  by (simp add: send_frame_def FRAME_QUEUE_MAXSIZE_def)

theorem send_frame_spec_witness:
  "send_frame Some (RTMPStreamer_init\<lparr>running := True, frame_queue := [[1], [2], [3], [4], [5]]\<rparr>) [6]
     = (False, RTMPStreamer_init\<lparr>running := True, frame_queue := [[1], [2], [3], [4], [5]]\<rparr>) \<and>
   send_frame Some (RTMPStreamer_init\<lparr>running := True, frame_queue := [[1], [2]]\<rparr>) [6]
     = (True, RTMPStreamer_init\<lparr>running := True, frame_queue := [[1], [2], [6]]\<rparr>) \<and>
   send_frame Some (RTMPStreamer_init\<lparr>frame_queue := [[1], [2]]\<rparr>) [6]
     = (False, RTMPStreamer_init\<lparr>frame_queue := [[1], [2]]\<rparr>)"
  using
    send_frame_spec [of "RTMPStreamer_init\<lparr>running := True, frame_queue := [[1], [2], [3], [4], [5]]\<rparr>"
      Some "[6]" "[6]"]
    send_frame_spec [of "RTMPStreamer_init\<lparr>running := True, frame_queue := [[1], [2]]\<rparr>"
      Some "[6]" "[6]"]
    send_frame_spec [of "RTMPStreamer_init\<lparr>frame_queue := [[1], [2]]\<rparr>" Some "[6]" "[6]"]
  by (simp add: RTMPStreamer_init_def)

subsection \<open>The volume boost\<close>






lemma max_samples_eq: "max_samples = 48000"
  by (simp add: max_samples_def AUDIO_SAMPLE_RATE_def AUDIO_CHANNELS_def)





subsection \<open>The audio buffer\<close>

lemma send_audio_buffer:
  assumes "running self" and "length (audio_buffer self) \<le> max_samples"
  shows "audio_buffer (snd (send_audio rnd self audio g)) =
     drop (length (audio_buffer self @ appended rnd [(audio, g)]) - max_samples)
       (audio_buffer self @ appended rnd [(audio, g)])"
  using assms
  by (auto simp add: send_audio_def last_n_def Let_def max_samples_eq split: sum.splits)

lemma send_audio_running: "running (snd (send_audio rnd self audio g)) = running self"
  by (simp add: send_audio_def Let_def split: sum.splits)

lemma drop_window:
  "drop (length (drop (length ys - m) ys @ rest) - m) (drop (length ys - m) ys @ rest)
     = drop (length (ys @ rest) - m) (ys @ rest)"
proof (cases "length ys \<le> m")
  case True
  then show ?thesis by simp
next
  case False
  then have "length (ys @ rest) - m = length rest + (length ys - m)"
    by simp
  moreover have "length (drop (length ys - m) ys @ rest) - m = length rest"
    using False by simp
  ultimately show ?thesis
    by (simp flip: drop_drop)
qed

lemma send_audio_calls_buffer:
  "running self \<Longrightarrow> length (audio_buffer self) \<le> max_samples \<Longrightarrow>
   audio_buffer (send_audio_calls rnd self cs) =
     drop (length (audio_buffer self @ appended rnd cs) - max_samples)
       (audio_buffer self @ appended rnd cs)"
proof (induction cs arbitrary: self)
  case Nil
  then show ?case by simp
next
  case (Cons c cs)
  obtain audio g where c: "c = (audio, g)"
    by (cases c)
  let ?s = "snd (send_audio rnd self audio g)"
  let ?xs = "appended rnd [(audio, g)]"
  have b: "audio_buffer ?s =
      drop (length (audio_buffer self @ ?xs) - max_samples) (audio_buffer self @ ?xs)"
    using Cons.prems by (rule send_audio_buffer)
  then have len: "length (audio_buffer ?s) \<le> max_samples"
    by simp
  have run: "running ?s"
    using Cons.prems(1) by (simp add: send_audio_running)
  have "audio_buffer (send_audio_calls rnd ?s cs) =
      drop (length (audio_buffer ?s @ appended rnd cs) - max_samples)
        (audio_buffer ?s @ appended rnd cs)"
    using run len by (rule Cons.IH)
  also have "\<dots> = drop (length ((audio_buffer self @ ?xs) @ appended rnd cs) - max_samples)
        ((audio_buffer self @ ?xs) @ appended rnd cs)"
    unfolding b by (rule drop_window)
  finally show ?case
    by (simp add: c)
qed

text \<open>
  Claim C3. For every sequence of \<open>send_audio\<close> calls on a running streamer that starts
  with an empty buffer, after each call the buffer holds at most 48000 samples (the
  configured maximum) and is a suffix of the concatenation of all samples appended so
  far: exactly its last 48000 samples, or all of it while there are fewer. The oldest
  samples are the ones dropped.
\<close>

theorem send_audio_keeps_newest:
  assumes "running self" and "audio_buffer self = []"
  shows "\<forall>k \<le> length cs.
     length (audio_buffer (send_audio_calls rnd self (take k cs))) \<le> 48000 \<and>
     suffix (audio_buffer (send_audio_calls rnd self (take k cs))) (appended rnd (take k cs)) \<and>
     audio_buffer (send_audio_calls rnd self (take k cs)) =
       drop (length (appended rnd (take k cs)) - 48000) (appended rnd (take k cs))"
proof (intro allI impI)
  fix k
  have "audio_buffer (send_audio_calls rnd self (take k cs)) =
      drop (length (audio_buffer self @ appended rnd (take k cs)) - max_samples)
        (audio_buffer self @ appended rnd (take k cs))"
    using assms by (intro send_audio_calls_buffer) simp_all
  then have e: "audio_buffer (send_audio_calls rnd self (take k cs)) =
      drop (length (appended rnd (take k cs)) - 48000) (appended rnd (take k cs))"
    using assms(2) by (simp add: max_samples_eq)
  show "length (audio_buffer (send_audio_calls rnd self (take k cs))) \<le> 48000 \<and>
     suffix (audio_buffer (send_audio_calls rnd self (take k cs))) (appended rnd (take k cs)) \<and>
     audio_buffer (send_audio_calls rnd self (take k cs)) =
       drop (length (appended rnd (take k cs)) - 48000) (appended rnd (take k cs))"
    unfolding e by (simp add: suffix_drop)
qed

lemma boost_id_1: "boost_sample id 1 7 = 7" "boost_sample id 1 8 = 8" "boost_sample id 1 9 = 9"
  by (simp_all add: boost_sample_def clip_def astype_int16_def trunc_toward_zero_def)

theorem send_audio_keeps_newest_witness:
  "audio_buffer (send_audio_calls id (RTMPStreamer_init\<lparr>running := True\<rparr>)
      [(NdArray (replicate 47999 7), 1), (RawBytes [1, 2, 3], 1), (NdArray [8, 9], 1)])
     = replicate 47998 7 @ [8, 9] \<and>
   length (audio_buffer (send_audio_calls id (RTMPStreamer_init\<lparr>running := True\<rparr>)
      [(NdArray (replicate 47999 7), 1), (RawBytes [1, 2, 3], 1), (NdArray [8, 9], 1)]))
     \<le> 48000"
proof -
  have r: "running (RTMPStreamer_init\<lparr>running := True\<rparr>)"
    by simp
  have b: "audio_buffer (RTMPStreamer_init\<lparr>running := True\<rparr>) = []"
    by (simp add: RTMPStreamer_init_def)
  have a: "appended id
      [(NdArray (replicate 47999 7), 1), (RawBytes [1, 2, 3], 1), (NdArray [8, 9], 1)]
      = replicate 47999 7 @ [8, 9]"
    by (simp add: samples_of_def boost_id_1)
  show ?thesis
    using send_audio_keeps_newest [OF r b, of
        "[(NdArray (replicate 47999 7), 1), (RawBytes [1, 2, 3], 1), (NdArray [8, 9], 1)]" id,
        rule_format, of 3]
    by (simp add: a del: appended.simps)
qed

section \<open>Properties of the orchestrator\<close>

subsection \<open>Injection per vote window\<close>

text \<open>
  Claim C1, as stated, fails: only the last window identifier acted on is kept, so an
  identifier that comes back after another one was observed in between is acted on
  again. Three polls carrying the windows 5, 6 and 5, each with a winner, give two
  calls of \<open>press_button\<close> for window 5.
\<close>

theorem recurring_window_counterexample:
  "injections (Some 5)
     (fst (vote_poll_loop fresh_session
        [Some (poll_result 5 (Some ''a'') 12), Some (poll_result 6 (Some ''b'') 3),
         Some (poll_result 5 (Some ''a'') 12)])) = 2"
  by (simp add: fresh_session_def poll_result_def ClawPlaysPokemon_init_def
      vote_poll_body_def update_state_from_api_def injections_def Let_def)

lemma update_state_from_api_step:
  assumes "update_state_from_api self st = Inr self'"
  shows "(case previousResult st of
            None \<Rightarrow> last_window_id self' = last_window_id self \<and> calls self' = calls self
          | Some prev \<Rightarrow>
              last_window_id self' = windowId prev \<and>
              (windowId prev = last_window_id self \<longrightarrow> calls self' = calls self) \<and>
              (windowId prev \<noteq> last_window_id self \<longrightarrow>
                 calls self' = calls self \<or>
                 (\<exists>b. calls self' = calls self @ [Inject (windowId prev) b])))"
  using assms
  by (auto simp add: update_state_from_api_def Let_def
      split: sum.splits option.splits if_splits)

lemma vote_poll_body_injections:
  assumes "vote_poll_body self fetched = Inr self'"
  shows "injections w self' + changes_to w (last_window_id self') (observed rest)
           \<le> injections w self + changes_to w (last_window_id self) (observed (fetched # rest))"
proof (cases fetched)
  case None
  with assms show ?thesis
    by (simp add: vote_poll_body_def)
next
  case (Some st)
  with assms have u: "update_state_from_api self st = Inr self'"
    by (simp add: vote_poll_body_def)
  show ?thesis
  proof (cases "previousResult st")
    case None
    with update_state_from_api_step [OF u] Some show ?thesis
      by (simp add: injections_def)
  next
    case (Some prev)
    with update_state_from_api_step [OF u] \<open>fetched = Some st\<close> show ?thesis
      by (auto simp add: injections_def)
  qed
qed

lemma vote_poll_loop_injections:
  "injections w (fst (vote_poll_loop self polls))
     \<le> injections w self + changes_to w (last_window_id self) (observed polls)"
proof (induction polls arbitrary: self)
  case Nil
  then show ?case by simp
next
  case (Cons fetched rest)
  show ?case
  proof (cases "vote_poll_body self fetched")
    case (Inl err)
    then show ?thesis by simp
  next
    case (Inr self')
    have "injections w (fst (vote_poll_loop self' rest))
            \<le> injections w self' + changes_to w (last_window_id self') (observed rest)"
      by (rule Cons.IH)
    also have "\<dots> \<le> injections w self
                  + changes_to w (last_window_id self) (observed (fetched # rest))"
      using Inr by (rule vote_poll_body_injections)
    finally show ?thesis
      using Inr by simp
  qed
qed

lemma changes_to_replicate: "changes_to w prev (replicate n x) \<le> 1"
proof (induction n arbitrary: prev)
  case 0
  then show ?case by simp
next
  case (Suc n)
  have "changes_to w x (replicate n x) = 0"
    by (induction n) simp_all
  then show ?case by simp
qed

lemma observed_replicate:
  "observed (replicate n fetched) = [] \<or> (\<exists>x. observed (replicate n fetched) = replicate n x)"
proof (cases fetched)
  case None
  have "observed (replicate n None) = []"
    by (induction n) simp_all
  with None show ?thesis by simp
next
  case (Some st)
  show ?thesis
  proof (cases "previousResult st")
    case None
    then have "observed (replicate n (Some st)) = []"
      by (induction n) simp_all
    with Some show ?thesis by simp
  next
    case (Some prev)
    then have "observed (replicate n (Some st)) = replicate n (windowId prev)"
      by (induction n) simp_all
    with \<open>fetched = Some st\<close> show ?thesis by blast
  qed
qed

text \<open>
  Claim C1, amended. Over any sequence of polls, the calls of \<open>press_button\<close> made for a
  window identifier \<open>w\<close> are at most as many as the times the observed identifier
  changes to \<open>w\<close> from a different one (counted from the identifier last acted on when
  the sequence starts); polls with no status or no previous result change nothing. In
  particular the same poll result observed any number of times in a row gives at most
  one call.
\<close>

theorem inject_once_per_change:
  "injections w (fst (vote_poll_loop self polls))
     \<le> injections w self + changes_to w (last_window_id self) (observed polls) \<and>
   injections w (fst (vote_poll_loop self (replicate n fetched))) \<le> injections w self + 1"
proof
  show "injections w (fst (vote_poll_loop self polls))
     \<le> injections w self + changes_to w (last_window_id self) (observed polls)"
    by (rule vote_poll_loop_injections)
  have "changes_to w (last_window_id self) (observed (replicate n fetched)) \<le> 1"
    using observed_replicate [of n fetched] changes_to_replicate by auto
  with vote_poll_loop_injections [of w self "replicate n fetched"]
  show "injections w (fst (vote_poll_loop self (replicate n fetched))) \<le> injections w self + 1"
    by linarith
qed


theorem inject_once_per_change_witness:
  "injections (Some 5)
     (fst (vote_poll_loop fresh_session
        [Some (poll_result 5 (Some ''a'') 12), Some (poll_result 5 (Some ''a'') 12), None,
         Some (poll_result 6 None 0)])) \<le> 1 \<and>
   injections (Some 5)
     (fst (vote_poll_loop fresh_session (replicate 3 (Some (poll_result 5 (Some ''a'') 12)))))
     \<le> 1"
  using inject_once_per_change [of "Some 5" fresh_session
      "[Some (poll_result 5 (Some ''a'') 12), Some (poll_result 5 (Some ''a'') 12), None,
        Some (poll_result 6 None 0)]" 3 "Some (poll_result 5 (Some ''a'') 12)"]
  by (simp add: fresh_session_def poll_result_def ClawPlaysPokemon_init_def injections_def)

subsection \<open>The deferred snapshot\<close>

lemma emulator_loop_body_countdown:
  assumes "emulator_loop_body rnd cfg loop_start audio (self, tm) = (self', tm')"
  shows "post_move_screenshot_frames self' =
           (if post_move_screenshot_frames self > 0 then post_move_screenshot_frames self - 1
            else post_move_screenshot_frames self) \<and>
         post_move_captures self' =
           post_move_captures self + (if post_move_screenshot_frames self = 1 then 1 else 0)"
  using assms
  by (auto simp add: emulator_loop_body_def Let_def post_move_captures_def
      split: option.splits if_splits prod.splits)

lemma emulator_loop_countdown:
  assumes "0 \<le> post_move_screenshot_frames self"
  shows "post_move_screenshot_frames (fst (emulator_loop rnd cfg (self, tm) ticks)) =
           max 0 (post_move_screenshot_frames self - int (length ticks)) \<and>
         post_move_captures (fst (emulator_loop rnd cfg (self, tm) ticks)) =
           post_move_captures self +
           (if 0 < post_move_screenshot_frames self
               \<and> post_move_screenshot_frames self \<le> int (length ticks) then 1 else 0)"
  using assms
proof (induction ticks arbitrary: self tm)
  case Nil
  then show ?case by simp
next
  case (Cons t ticks)
  obtain loop_start audio where t: "t = (loop_start, audio)"
    by (cases t)
  obtain self' tm' where b: "emulator_loop_body rnd cfg loop_start audio (self, tm) = (self', tm')"
    by (cases "emulator_loop_body rnd cfg loop_start audio (self, tm)")
  note step = emulator_loop_body_countdown [OF b]
  have nonneg: "0 \<le> post_move_screenshot_frames self'"
    using step Cons.prems by auto
  note ih = Cons.IH [OF nonneg, of tm']
  show ?case
    using ih step Cons.prems
    by (auto simp add: t b)
qed


text \<open>
  Claim C7. When a poll reports a new window with a winner, the countdown is set to 20.
  From there every iteration of the emulator loop takes exactly one off it until it is
  zero, where it stays; the snapshot it stands for is taken once, in the twentieth
  iteration, and never again in later iterations.
\<close>

theorem post_move_countdown:
  assumes "previousResult st = Some prev"
    and "windowId prev \<noteq> last_window_id self"
    and "winner prev = Some w"
    and "w \<noteq> []"
    and "update_state_from_api self st = Inr armed"
  shows "post_move_screenshot_frames armed = 20 \<and>
    (\<forall>ticks tm.
       post_move_screenshot_frames (fst (emulator_loop rnd cfg (armed, tm) ticks)) =
         max 0 (20 - int (length ticks)) \<and>
       post_move_captures (fst (emulator_loop rnd cfg (armed, tm) ticks)) =
         post_move_captures armed + (if 20 \<le> length ticks then 1 else 0))"
proof -
  have a: "post_move_screenshot_frames armed = 20"
    using assms
    by (auto simp add: update_state_from_api_def Let_def split: sum.splits)
  then have "0 \<le> post_move_screenshot_frames armed"
    by simp
  from emulator_loop_countdown [OF this, of rnd cfg] a show ?thesis
    by simp
qed

theorem post_move_countdown_witness:
  "post_move_screenshot_frames
     (fst (vote_poll_loop fresh_session [Some (poll_result 5 (Some ''a'') 12)])) = 20 \<and>
   post_move_captures
     (fst (vote_poll_loop fresh_session [Some (poll_result 5 (Some ''a'') 12)])) = 0 \<and>
   post_move_screenshot_frames
     (fst (emulator_loop id \<lparr>AUDIO_VOLUME_BOOST = 5, SAVE_STATE_INTERVAL = 300\<rparr>
        (fst (vote_poll_loop fresh_session [Some (poll_result 5 (Some ''a'') 12)]),
         \<lparr>last_screenshot_time = 0, last_auto_save_time = 0\<rparr>)
        (replicate 19 (0, NdArray [])))) = 1 \<and>
   post_move_captures
     (fst (emulator_loop id \<lparr>AUDIO_VOLUME_BOOST = 5, SAVE_STATE_INTERVAL = 300\<rparr>
        (fst (vote_poll_loop fresh_session [Some (poll_result 5 (Some ''a'') 12)]),
         \<lparr>last_screenshot_time = 0, last_auto_save_time = 0\<rparr>)
        (replicate 19 (0, NdArray [])))) = 0 \<and>
   post_move_screenshot_frames
     (fst (emulator_loop id \<lparr>AUDIO_VOLUME_BOOST = 5, SAVE_STATE_INTERVAL = 300\<rparr>
        (fst (vote_poll_loop fresh_session [Some (poll_result 5 (Some ''a'') 12)]),
         \<lparr>last_screenshot_time = 0, last_auto_save_time = 0\<rparr>)
        (replicate 25 (0, NdArray [])))) = 0 \<and>
   post_move_captures
     (fst (emulator_loop id \<lparr>AUDIO_VOLUME_BOOST = 5, SAVE_STATE_INTERVAL = 300\<rparr>
        (fst (vote_poll_loop fresh_session [Some (poll_result 5 (Some ''a'') 12)]),
         \<lparr>last_screenshot_time = 0, last_auto_save_time = 0\<rparr>)
        (replicate 25 (0, NdArray [])))) = 1"
proof -
  let ?st = "poll_result 5 (Some ''a'') 12"
  let ?armed = "fst (vote_poll_loop fresh_session [Some ?st])"
  have h1: "previousResult ?st = Some \<lparr>windowId = Some 5, winner = Some ''a'', totalVotes = Present 12\<rparr>"
    by (simp add: poll_result_def)
  have h2: "windowId \<lparr>windowId = Some 5, winner = Some ''a'', totalVotes = Present 12\<rparr>
      \<noteq> last_window_id fresh_session"
    by (simp add: fresh_session_def ClawPlaysPokemon_init_def)
  have h3: "winner \<lparr>windowId = Some 5, winner = Some ''a'', totalVotes = Present 12\<rparr> = Some ''a''"
    by simp
  have h4: "''a'' \<noteq> []"
    by simp
  have h5: "update_state_from_api fresh_session ?st = Inr ?armed"
    by (simp add: vote_poll_body_def update_state_from_api_def poll_result_def Let_def
        fresh_session_def ClawPlaysPokemon_init_def)
  have c: "post_move_captures ?armed = 0"
    by (simp add: vote_poll_body_def update_state_from_api_def poll_result_def Let_def
        fresh_session_def ClawPlaysPokemon_init_def post_move_captures_def)
  note t = post_move_countdown [OF h1 h2 h3 h4 h5,
      of id "\<lparr>AUDIO_VOLUME_BOOST = 5, SAVE_STATE_INTERVAL = 300\<rparr>"]
  from t have t0: "post_move_screenshot_frames ?armed = 20"
    by blast
  from t have t19: "post_move_screenshot_frames
     (fst (emulator_loop id \<lparr>AUDIO_VOLUME_BOOST = 5, SAVE_STATE_INTERVAL = 300\<rparr>
        (?armed, \<lparr>last_screenshot_time = 0, last_auto_save_time = 0\<rparr>)
        (replicate 19 (0, NdArray [])))) = max 0 (20 - int (length (replicate 19 (0 :: real, NdArray [])))) \<and>
     post_move_captures
     (fst (emulator_loop id \<lparr>AUDIO_VOLUME_BOOST = 5, SAVE_STATE_INTERVAL = 300\<rparr>
        (?armed, \<lparr>last_screenshot_time = 0, last_auto_save_time = 0\<rparr>)
        (replicate 19 (0, NdArray [])))) = post_move_captures ?armed
          + (if 20 \<le> length (replicate 19 (0 :: real, NdArray [])) then 1 else 0)"
    by blast
  from t have t25: "post_move_screenshot_frames
     (fst (emulator_loop id \<lparr>AUDIO_VOLUME_BOOST = 5, SAVE_STATE_INTERVAL = 300\<rparr>
        (?armed, \<lparr>last_screenshot_time = 0, last_auto_save_time = 0\<rparr>)
        (replicate 25 (0, NdArray [])))) = max 0 (20 - int (length (replicate 25 (0 :: real, NdArray [])))) \<and>
     post_move_captures
     (fst (emulator_loop id \<lparr>AUDIO_VOLUME_BOOST = 5, SAVE_STATE_INTERVAL = 300\<rparr>
        (?armed, \<lparr>last_screenshot_time = 0, last_auto_save_time = 0\<rparr>)
        (replicate 25 (0, NdArray [])))) = post_move_captures ?armed
          + (if 20 \<le> length (replicate 25 (0 :: real, NdArray [])) then 1 else 0)"
    by blast
  from t0 c t19 t25 show ?thesis
    by (simp only: length_replicate) simp
qed

section \<open>Properties of the saves\<close>

lemma rfind_ge: "- 1 \<le> rfind xs c"
  by (induction xs) (auto simp add: Let_def)

lemma rfind_none: "rfind xs c = - 1 \<longleftrightarrow> c \<notin> set xs"
proof (induction xs)
  case Nil
  then show ?case by simp
next
  case (Cons x xs)
  from rfind_ge [of xs c] have "rfind xs c + 1 \<noteq> - 1"
    by linarith
  with Cons show ?case
    by (auto simp add: Let_def)
qed

lemma rfind_last:
  "rfind xs c \<noteq> - 1 \<Longrightarrow>
   nat (rfind xs c) < length xs \<and> xs ! nat (rfind xs c) = c \<and>
   c \<notin> set (drop (Suc (nat (rfind xs c))) xs)"
proof (induction xs)
  case Nil
  then show ?case by simp
next
  case (Cons x xs)
  show ?case
  proof (cases "rfind xs c = - 1")
    case True
    with Cons.prems show ?thesis
      by (auto simp add: Let_def rfind_none split: if_splits)
  next
    case False
    from rfind_ge [of xs c] False have "0 \<le> rfind xs c"
      by linarith
    then have "nat (rfind xs c + 1) = Suc (nat (rfind xs c))"
      by simp
    with Cons.IH [OF False] False show ?thesis
      by (simp add: Let_def)
  qed
qed

lemma path_suffix_one_dot:
  assumes "path_suffix p \<noteq> []"
  shows "\<exists>rest. path_suffix p = CHR ''.'' # rest \<and> CHR ''.'' \<notin> set rest"
    and "path_name p = take (length (path_name p) - length (path_suffix p)) (path_name p)
           @ path_suffix p"
proof -
  let ?name = "path_name p"
  let ?i = "rfind ?name (CHR ''.'')"
  from assms have i: "0 < ?i" "?i < int (length ?name) - 1"
    and s: "path_suffix p = drop (nat ?i) ?name"
    by (auto simp add: path_suffix_def Let_def split: if_splits)
  from i have ne: "?i \<noteq> - 1" by simp
  note l = rfind_last [OF ne]
  from l have "nat ?i < length ?name" by blast
  then have "drop (nat ?i) ?name = ?name ! nat ?i # drop (Suc (nat ?i)) ?name"
    by (rule Cons_nth_drop_Suc [symmetric])
  with l s show "\<exists>rest. path_suffix p = CHR ''.'' # rest \<and> CHR ''.'' \<notin> set rest"
    by simp
  from l have "length ?name - length (path_suffix p) = nat ?i"
    unfolding s by simp
  then show "path_name p = take (length (path_name p) - length (path_suffix p)) (path_name p)
           @ path_suffix p"
    unfolding s by simp
qed

lemma with_suffix_name:
  assumes "with_suffix p sfx = Inr q"
  shows "q \<noteq> [] \<and> butlast q = butlast p \<and> p \<noteq> [] \<and>
     last q = (if path_suffix p = [] then path_name p
               else take (length (path_name p) - length (path_suffix p)) (path_name p)) @ sfx"
  using assms
  by (auto simp add: with_suffix_def Let_def path_name_def split: if_splits)

text \<open>The temporary path of \<open>save_screenshot\<close> is never the destination.\<close>

lemma screenshot_temp_differs:
  assumes "with_suffix p ''.tmp.png'' = Inr q"
  shows "q \<noteq> p"
proof
  assume "q = p"
  with with_suffix_name [OF assms] have
    n: "path_name p = (if path_suffix p = [] then path_name p
               else take (length (path_name p) - length (path_suffix p)) (path_name p)) @ ''.tmp.png''"
    by (simp add: path_name_def)
  show False
  proof (cases "path_suffix p = []")
    case True
    with n have "length (path_name p) = length (path_name p @ ''.tmp.png'')"
      by simp
    then show False by simp
  next
    case False
    from path_suffix_one_dot(2) [OF False] n False
    have "take (length (path_name p) - length (path_suffix p)) (path_name p) @ path_suffix p
        = take (length (path_name p) - length (path_suffix p)) (path_name p) @ ''.tmp.png''"
      by simp
    then have "path_suffix p = ''.tmp.png''"
      by simp
    with path_suffix_one_dot(1) [OF False] show False
      by auto
  qed
qed

text \<open>
  The temporary path of \<open>save_state\<close> is the destination only for a destination whose
  suffix is \<open>.tmp\<close>.
\<close>

lemma save_state_temp_differs:
  assumes "with_suffix p ''.tmp'' = Inr q" and "path_suffix p \<noteq> ''.tmp''"
  shows "q \<noteq> p"
proof
  assume "q = p"
  with with_suffix_name [OF assms(1)] have
    n: "path_name p = (if path_suffix p = [] then path_name p
               else take (length (path_name p) - length (path_suffix p)) (path_name p)) @ ''.tmp''"
    by (simp add: path_name_def)
  show False
  proof (cases "path_suffix p = []")
    case True
    with n have "length (path_name p) = length (path_name p @ ''.tmp'')"
      by simp
    then show False by simp
  next
    case False
    from path_suffix_one_dot(2) [OF False] n False
    have "take (length (path_name p) - length (path_suffix p)) (path_name p) @ path_suffix p
        = take (length (path_name p) - length (path_suffix p)) (path_name p) @ ''.tmp''"
      by simp
    then have "path_suffix p = ''.tmp''"
      by simp
    with assms(2) show False
      by simp
  qed
qed

lemma example_emulator_paths:
  "save_state_path example_emulator = [''data'', ''pokemon.save'']"
  "screenshot_path example_emulator = [''data'', ''screenshot.png'']"
  by (simp_all add: example_emulator_def Emulator_init_def)

lemma with_suffix_examples:
  "with_suffix [''data'', ''pokemon.tmp''] ''.tmp'' = Inr [''data'', ''pokemon.tmp'']"
  "with_suffix [''data'', ''pokemon.save''] ''.tmp'' = Inr [''data'', ''pokemon.tmp'']"
  "with_suffix [''data'', ''screenshot.png''] ''.tmp.png'' = Inr [''data'', ''screenshot.tmp.png'']"
  "path_suffix [''data'', ''pokemon.save''] = ''.save''"
  by (simp_all add: with_suffix_def path_suffix_def path_name_def Let_def)

text \<open>
  A failed \<open>save_screenshot\<close> returns false and leaves the file at the screenshot path
  as it was, wherever the failure is: the temporary path is never the destination.
\<close>

theorem save_screenshot_preserves_destination:
  "flt \<noteq> ImageSaved \<longrightarrow>
     fst (save_screenshot self d png flt) = False \<and>
     snd (save_screenshot self d png flt) (screenshot_path self) = d (screenshot_path self)"
proof (cases "with_suffix (screenshot_path self) ''.tmp.png''")
  case (Inl err)
  then show ?thesis
    by (simp add: save_screenshot_def)
next
  case (Inr q)
  from screenshot_temp_differs [OF Inr] have "q \<noteq> screenshot_path self" .
  with Inr show ?thesis
    by (cases flt) (simp_all add: save_screenshot_def)
qed

theorem save_screenshot_preserves_destination_witness:
  "fst (save_screenshot
     example_emulator
     (Map.empty([''data'', ''screenshot.png''] \<mapsto> [1, 2, 3])) [9, 8, 7, 6]
     (ImageSaveFails (Some [9]))) = False \<and>
   snd (save_screenshot
     example_emulator
     (Map.empty([''data'', ''screenshot.png''] \<mapsto> [1, 2, 3])) [9, 8, 7, 6]
     (ImageSaveFails (Some [9]))) [''data'', ''screenshot.png''] = Some [1, 2, 3]"
  using save_screenshot_preserves_destination [of "ImageSaveFails (Some [9])"
      "example_emulator"
      "Map.empty([''data'', ''screenshot.png''] \<mapsto> [1, 2, 3])" "[9, 8, 7, 6]"]
  by (simp add: example_emulator_paths)

text \<open>
  A failed \<open>save_state\<close> returns false and leaves the file at the save path as it was,
  for every save path whose suffix is not \<open>.tmp\<close>.
\<close>

theorem save_state_preserves_destination:
  "path_suffix (save_state_path self) \<noteq> ''.tmp'' \<and> flt \<noteq> NoFault \<longrightarrow>
     fst (save_state self d state_bytes flt now) = False \<and>
     snd (snd (save_state self d state_bytes flt now)) (save_state_path self)
       = d (save_state_path self)"
proof (cases "with_suffix (save_state_path self) ''.tmp''")
  case (Inl err)
  then show ?thesis
    by (simp add: save_state_def)
next
  case (Inr q)
  show ?thesis
  proof (intro impI)
    assume a: "path_suffix (save_state_path self) \<noteq> ''.tmp'' \<and> flt \<noteq> NoFault"
    then have "q \<noteq> save_state_path self"
      using save_state_temp_differs [OF Inr] by blast
    with Inr a show "fst (save_state self d state_bytes flt now) = False \<and>
     snd (snd (save_state self d state_bytes flt now)) (save_state_path self)
       = d (save_state_path self)"
      by (cases flt) (simp_all add: save_state_def)
  qed
qed

theorem save_state_preserves_destination_witness:
  "fst (save_state
     example_emulator
     (Map.empty([''data'', ''pokemon.save''] \<mapsto> [1, 2, 3])) [9, 8, 7, 6] (WriteFails 1) 0)
     = False \<and>
   snd (snd (save_state
     example_emulator
     (Map.empty([''data'', ''pokemon.save''] \<mapsto> [1, 2, 3])) [9, 8, 7, 6] (WriteFails 1) 0))
     [''data'', ''pokemon.save''] = Some [1, 2, 3]"
  using save_state_preserves_destination [of
      "example_emulator"
      "WriteFails 1" "Map.empty([''data'', ''pokemon.save''] \<mapsto> [1, 2, 3])" "[9, 8, 7, 6]" 0]
  by (simp add: with_suffix_examples example_emulator_paths)

text \<open>
  Claim C9 at a save path whose suffix is \<open>.tmp\<close>: the temporary path is the save path
  itself, the file is opened for writing in place, and a write that fails after one
  byte leaves that one byte where the previous save was.
\<close>

theorem save_state_tmp_destination_torn:
  "save_state
     (example_emulator\<lparr>save_state_path := [''data'', ''pokemon.tmp'']\<rparr>)
     (Map.empty([''data'', ''pokemon.tmp''] \<mapsto> [1, 2, 3])) [9, 8, 7, 6] (WriteFails 1) 0
   = (False,
      example_emulator\<lparr>save_state_path := [''data'', ''pokemon.tmp'']\<rparr>,
      Map.empty([''data'', ''pokemon.tmp''] \<mapsto> [9]))"
  by (simp add: save_state_def with_suffix_examples)

section \<open>Properties of the writer threads\<close>

lemma broken_audio_run:
  "run_session id (snd (start True True RTMPStreamer_init)) broken_audio_schedule =
     \<lparr>running = False, frame_queue = [[1]], audio_buffer = [],
      video_thread = InBody, audio_thread = Exited, audio_last_time = 1,
      pipe_writes = [AudioWrite (replicate samples_per_chunk 0) BrokenPipeError]\<rparr>"
  by (simp add: run_session_def broken_audio_schedule_def start_def RTMPStreamer_init_def
      session_step_def video_writer_step_def audio_writer_step_def send_frame_def
      FRAME_QUEUE_MAXSIZE_def chunk_interval_def pop_chunk_def Let_def)

text \<open>
  Claim C8, as stated, fails in one point: a writer reads the flag only at the head of
  its loop, so a write already under way is still made after the flag has gone false.
  In the run below the video thread has read the flag and waits for a frame when the
  audio write breaks; the flag is false, no frame has been written yet, and the next
  step of the video thread writes the queued frame.
\<close>

theorem write_after_flag_false_counterexample:
  "\<not> running (run_session id (snd (start True True RTMPStreamer_init)) broken_audio_schedule) \<and>
   video_writes (pipe_writes
     (run_session id (snd (start True True RTMPStreamer_init)) broken_audio_schedule)) = 0 \<and>
   pipe_writes
     (run_session id (snd (start True True RTMPStreamer_init))
        (broken_audio_schedule @ [VideoStep True WriteOk]))
     = [AudioWrite (replicate samples_per_chunk 0) BrokenPipeError, VideoWrite [1] WriteOk]"
proof -
  have "run_session id (snd (start True True RTMPStreamer_init))
        (broken_audio_schedule @ [VideoStep True WriteOk])
      = session_step id
          (run_session id (snd (start True True RTMPStreamer_init)) broken_audio_schedule)
          (VideoStep True WriteOk)"
    by (simp add: run_session_def)
  then show ?thesis
    by (simp add: broken_audio_run session_step_def video_writer_step_def video_writes_def)
qed


lemma video_writer_step_stopped:
  assumes "\<not> running s"
  shows "\<not> running (video_writer_step open_ok outcome s) \<and>
    video_writes (pipe_writes (video_writer_step open_ok outcome s))
      + video_in_flight (video_writer_step open_ok outcome s)
      \<le> video_writes (pipe_writes s) + video_in_flight s \<and>
    audio_writes (pipe_writes (video_writer_step open_ok outcome s))
      = audio_writes (pipe_writes s) \<and>
    audio_thread (video_writer_step open_ok outcome s) = audio_thread s"
  using assms
  by (cases "video_thread s"; cases "frame_queue s"; cases outcome)
     (simp_all add: video_writer_step_def video_in_flight_def video_writes_def
        audio_writes_def Let_def)

lemma audio_writer_step_stopped:
  assumes "\<not> running s"
  shows "\<not> running (audio_writer_step open_ok now outcome s) \<and>
    audio_writes (pipe_writes (audio_writer_step open_ok now outcome s))
      + audio_in_flight (audio_writer_step open_ok now outcome s)
      \<le> audio_writes (pipe_writes s) + audio_in_flight s \<and>
    video_writes (pipe_writes (audio_writer_step open_ok now outcome s))
      = video_writes (pipe_writes s) \<and>
    video_thread (audio_writer_step open_ok now outcome s) = video_thread s"
  using assms
  by (cases "audio_thread s"; cases outcome)
     (simp_all add: audio_writer_step_def audio_in_flight_def video_writes_def
        audio_writes_def Let_def split: prod.splits)

lemma session_step_stopped:
  assumes "\<not> running s"
  shows "\<not> running (session_step rnd s ev) \<and>
    video_writes (pipe_writes (session_step rnd s ev)) + video_in_flight (session_step rnd s ev)
      \<le> video_writes (pipe_writes s) + video_in_flight s \<and>
    audio_writes (pipe_writes (session_step rnd s ev)) + audio_in_flight (session_step rnd s ev)
      \<le> audio_writes (pipe_writes s) + audio_in_flight s"
proof (cases ev)
  case (VideoStep open_ok outcome)
  with video_writer_step_stopped [OF assms, of open_ok outcome] show ?thesis
    by (simp add: session_step_def audio_in_flight_def)
next
  case (AudioStep open_ok now outcome)
  with audio_writer_step_stopped [OF assms, of open_ok now outcome] show ?thesis
    by (simp add: session_step_def video_in_flight_def)
next
  case (SendFrame rendered)
  with assms show ?thesis
    by (simp add: session_step_def send_frame_def)
next
  case (SendAudio audio g)
  with assms show ?thesis
    by (simp add: session_step_def send_audio_def)
next
  case Stop
  with assms show ?thesis
    by (simp add: session_step_def stop_def video_in_flight_def audio_in_flight_def)
qed

lemma run_session_stopped:
  assumes "\<not> running s"
  shows "\<not> running (run_session rnd s evs) \<and>
    video_writes (pipe_writes (run_session rnd s evs)) + video_in_flight (run_session rnd s evs)
      \<le> video_writes (pipe_writes s) + video_in_flight s \<and>
    audio_writes (pipe_writes (run_session rnd s evs)) + audio_in_flight (run_session rnd s evs)
      \<le> audio_writes (pipe_writes s) + audio_in_flight s"
  using assms
proof (induction evs arbitrary: s)
  case Nil
  then show ?case by (simp add: run_session_def)
next
  case (Cons ev evs)
  note st = session_step_stopped [OF Cons.prems, of rnd ev]
  then have "\<not> running (session_step rnd s ev)" by blast
  from Cons.IH [OF this] st show ?case
    by (simp add: run_session_def)
qed


lemma session_step_exited:
  "video_thread s = Exited \<Longrightarrow> video_thread (session_step rnd s ev) = Exited"
  "audio_thread s = Exited \<Longrightarrow> audio_thread (session_step rnd s ev) = Exited"
proof -
  show "video_thread (session_step rnd s ev) = Exited" if "video_thread s = Exited"
    using that
    by (cases ev; cases "audio_thread s")
       (auto simp add: session_step_def video_writer_step_def audio_writer_step_def
          send_frame_def send_audio_def stop_def Let_def
          split: option.splits sum.splits prod.splits write_outcome.splits)
  show "audio_thread (session_step rnd s ev) = Exited" if "audio_thread s = Exited"
    using that
    by (cases ev; cases "video_thread s")
       (auto simp add: session_step_def video_writer_step_def audio_writer_step_def
          send_frame_def send_audio_def stop_def Let_def
          split: option.splits sum.splits prod.splits write_outcome.splits list.splits)
qed

lemma run_session_exited:
  "video_thread s = Exited \<Longrightarrow> video_thread (run_session rnd s evs) = Exited"
  "audio_thread s = Exited \<Longrightarrow> audio_thread (run_session rnd s evs) = Exited"
proof -
  show "video_thread (run_session rnd s evs) = Exited" if "video_thread s = Exited"
    using that
    by (induction evs arbitrary: s) (simp_all add: run_session_def session_step_exited)
  show "audio_thread (run_session rnd s evs) = Exited" if "audio_thread s = Exited"
    using that
    by (induction evs arbitrary: s) (simp_all add: run_session_def session_step_exited)
qed

text \<open>
  Claim C8, amended. A write that fails with a broken pipe, in either writer loop, sets
  the running flag to false and ends that loop. From a state where the flag is false,
  under every schedule of thread steps, \<open>send_frame\<close>, \<open>send_audio\<close> and \<open>stop\<close>: the flag
  stays false; each writer makes at most one more write, and only if it was inside its
  loop body; a writer at the head of its loop ends at its next step; and a writer that
  has ended stays ended (no retry).
\<close>

theorem broken_pipe_is_terminal:
  "(video_thread s = InBody \<and> frame_queue s \<noteq> [] \<longrightarrow>
      \<not> running (video_writer_step open_ok BrokenPipeError s) \<and>
      video_thread (video_writer_step open_ok BrokenPipeError s) = Exited) \<and>
   (audio_thread s = InBody \<and> now - audio_last_time s \<ge> chunk_interval \<longrightarrow>
      \<not> running (audio_writer_step open_ok now BrokenPipeError s) \<and>
      audio_thread (audio_writer_step open_ok now BrokenPipeError s) = Exited) \<and>
   (\<not> running s \<longrightarrow>
      \<not> running (run_session rnd s evs) \<and>
      video_writes (pipe_writes (run_session rnd s evs))
        \<le> video_writes (pipe_writes s) + (if video_thread s = InBody then 1 else 0) \<and>
      audio_writes (pipe_writes (run_session rnd s evs))
        \<le> audio_writes (pipe_writes s) + (if audio_thread s = InBody then 1 else 0) \<and>
      (video_thread s = LoopHead \<longrightarrow>
         video_thread (video_writer_step open_ok outcome s) = Exited) \<and>
      (audio_thread s = LoopHead \<longrightarrow>
         audio_thread (audio_writer_step open_ok now outcome s) = Exited) \<and>
      (video_thread s = Exited \<longrightarrow> video_thread (run_session rnd s evs) = Exited) \<and>
      (audio_thread s = Exited \<longrightarrow> audio_thread (run_session rnd s evs) = Exited))"
proof (intro conjI impI)
  assume "video_thread s = InBody \<and> frame_queue s \<noteq> []"
  then show "\<not> running (video_writer_step open_ok BrokenPipeError s)"
    and "video_thread (video_writer_step open_ok BrokenPipeError s) = Exited"
    by (cases "frame_queue s"; simp add: video_writer_step_def Let_def)+
next
  assume "audio_thread s = InBody \<and> now - audio_last_time s \<ge> chunk_interval"
  then show "\<not> running (audio_writer_step open_ok now BrokenPipeError s)"
    and "audio_thread (audio_writer_step open_ok now BrokenPipeError s) = Exited"
    by (simp_all add: audio_writer_step_def Let_def split: prod.splits)
next
  assume r: "\<not> running s"
  note inv = run_session_stopped [OF r, of rnd evs]
  from inv show "\<not> running (run_session rnd s evs)"
    by blast
  from inv show "video_writes (pipe_writes (run_session rnd s evs))
        \<le> video_writes (pipe_writes s) + (if video_thread s = InBody then 1 else 0)"
    by (simp add: video_in_flight_def split: if_splits)
  from inv show "audio_writes (pipe_writes (run_session rnd s evs))
        \<le> audio_writes (pipe_writes s) + (if audio_thread s = InBody then 1 else 0)"
    by (simp add: audio_in_flight_def split: if_splits)
  show "video_thread (video_writer_step open_ok outcome s) = Exited"
    if "video_thread s = LoopHead"
    using that r by (simp add: video_writer_step_def)
  show "audio_thread (audio_writer_step open_ok now outcome s) = Exited"
    if "audio_thread s = LoopHead"
    using that r by (simp add: audio_writer_step_def)
  show "video_thread (run_session rnd s evs) = Exited" if "video_thread s = Exited"
    using that by (rule run_session_exited(1))
  show "audio_thread (run_session rnd s evs) = Exited" if "audio_thread s = Exited"
    using that by (rule run_session_exited(2))
qed


theorem broken_pipe_is_terminal_witness:
  "\<not> running (video_writer_step True BrokenPipeError
       (RTMPStreamer_init\<lparr>running := True, frame_queue := [[1]], video_thread := InBody,
          audio_thread := LoopHead\<rparr>)) \<and>
   video_thread (video_writer_step True BrokenPipeError
       (RTMPStreamer_init\<lparr>running := True, frame_queue := [[1]], video_thread := InBody,
          audio_thread := LoopHead\<rparr>)) = Exited \<and>
   \<not> running (run_session id
       (run_session id (snd (start True True RTMPStreamer_init)) broken_audio_schedule)
       [VideoStep True WriteOk, SendFrame (Some [2]), VideoStep True WriteOk,
        AudioStep True 2 WriteOk, VideoStep True WriteOk]) \<and>
   video_writes (pipe_writes (run_session id
       (run_session id (snd (start True True RTMPStreamer_init)) broken_audio_schedule)
       [VideoStep True WriteOk, SendFrame (Some [2]), VideoStep True WriteOk,
        AudioStep True 2 WriteOk, VideoStep True WriteOk])) \<le> 1 \<and>
   audio_writes (pipe_writes (run_session id
       (run_session id (snd (start True True RTMPStreamer_init)) broken_audio_schedule)
       [VideoStep True WriteOk, SendFrame (Some [2]), VideoStep True WriteOk,
        AudioStep True 2 WriteOk, VideoStep True WriteOk])) \<le> 1 \<and>
   audio_thread (run_session id
       (run_session id (snd (start True True RTMPStreamer_init)) broken_audio_schedule)
       [VideoStep True WriteOk, SendFrame (Some [2]), VideoStep True WriteOk,
        AudioStep True 2 WriteOk, VideoStep True WriteOk]) = Exited"
  using
    broken_pipe_is_terminal [of
      "RTMPStreamer_init\<lparr>running := True, frame_queue := [[1]], video_thread := InBody,
          audio_thread := LoopHead\<rparr>" True 0 id "[]" WriteOk]
    broken_pipe_is_terminal [of
      "run_session id (snd (start True True RTMPStreamer_init)) broken_audio_schedule"
      True 2 id
      "[VideoStep True WriteOk, SendFrame (Some [2]), VideoStep True WriteOk,
        AudioStep True 2 WriteOk, VideoStep True WriteOk]" WriteOk]
  unfolding broken_audio_run
  by (simp add: RTMPStreamer_init_def video_writes_def audio_writes_def)

section \<open>The countdown while polls go on\<close>

lemma vote_poll_body_injects_or_not:
  assumes "vote_poll_body self fetched = Inr self'"
  shows "(post_move_screenshot_frames self' = post_move_screenshot_frames self \<and>
          calls self' = calls self) \<or>
         total_injections self' = total_injections self + 1"
  using assms
  by (cases fetched)
     (auto simp add: vote_poll_body_def update_state_from_api_def Let_def total_injections_def
        split: sum.splits option.splits if_splits)

lemma emulator_loop_body_injections:
  assumes "emulator_loop_body rnd cfg loop_start audio (self, tm) = (self', tm')"
  shows "total_injections self' = total_injections self"
  using assms
  by (auto simp add: emulator_loop_body_def Let_def total_injections_def
      split: option.splits if_splits prod.splits)

lemma run_loops_injections_mono:
  "total_injections (fst st) \<le> total_injections (fst (fst (run_loops rnd cfg st evs)))"
proof (induction evs arbitrary: st)
  case Nil
  then show ?case by simp
next
  case (Cons ev evs)
  show ?case
  proof (cases ev)
    case (PollBody fetched)
    show ?thesis
    proof (cases "vote_poll_body (fst st) fetched")
      case (Inl err)
      with PollBody show ?thesis by simp
    next
      case (Inr s1)
      from vote_poll_body_injects_or_not [OF Inr]
      have "total_injections (fst st) \<le> total_injections s1"
        by (auto simp add: total_injections_def)
      also have "\<dots> \<le> total_injections (fst (fst (run_loops rnd cfg (s1, snd st) evs)))"
        using Cons.IH [of "(s1, snd st)"] by simp
      finally show ?thesis
        using PollBody Inr by simp
    qed
  next
    case (EmulatorBody loop_start audio)
    obtain s1 tm1 where
      b: "emulator_loop_body rnd cfg loop_start audio (fst st, snd st) = (s1, tm1)"
      by (cases "emulator_loop_body rnd cfg loop_start audio (fst st, snd st)")
    from emulator_loop_body_injections [OF b] Cons.IH [of "(s1, tm1)"] b EmulatorBody
    show ?thesis by simp
  qed
qed

lemma armed_example:
  "fst (vote_poll_loop fresh_session [Some (poll_result 5 (Some ''a'') 12)]) =
    fresh_session\<lparr>time_remaining := Some 5, last_window_id := Some 5,
       last_winner := Some ''a'', last_winner_votes := Some 12,
       emulator := example_emulator\<lparr>pyboy := [Button ''a''], held_button := Some ''a'',
          hold_frames_remaining := 8\<rparr>,
       calls := [Inject (Some 5) ''a''], post_move_screenshot_frames := 20\<rparr>"
  by (simp add: vote_poll_body_def update_state_from_api_def poll_result_def Let_def
      fresh_session_def ClawPlaysPokemon_init_def press_button_def lower_examples
      VALID_BUTTONS_def BUTTON_HOLD_FRAMES_def example_emulator_def Emulator_init_def)

text \<open>
  Over any sequence of bodies of the poll loop and the emulator loop that ends without
  an exception and in which \<open>press_button\<close> is not called again, the countdown goes down
  by one per emulator iteration until it is zero, and the post-move snapshot is taken
  once, in the iteration that brings it to zero. Polls that repeat the window already
  acted on, report a window without a winner, or fail, change nothing of this.
\<close>

theorem countdown_across_polls:
  assumes "0 \<le> post_move_screenshot_frames self"
    and "snd (run_loops rnd cfg (self, tm) evs) = None"
    and "total_injections (fst (fst (run_loops rnd cfg (self, tm) evs))) = total_injections self"
  shows "post_move_screenshot_frames (fst (fst (run_loops rnd cfg (self, tm) evs))) =
           max 0 (post_move_screenshot_frames self - int (length (filter is_emulator_body evs))) \<and>
         post_move_captures (fst (fst (run_loops rnd cfg (self, tm) evs))) =
           post_move_captures self +
           (if 0 < post_move_screenshot_frames self
               \<and> post_move_screenshot_frames self \<le> int (length (filter is_emulator_body evs))
            then 1 else 0)"
  using assms
proof (induction evs arbitrary: self tm)
  case Nil
  then show ?case by simp
next
  case (Cons ev evs)
  show ?case
  proof (cases ev)
    case (PollBody fetched)
    with Cons.prems(2) obtain s1 where
      b: "vote_poll_body self fetched = Inr s1"
      by (cases "vote_poll_body self fetched") auto
    have r: "run_loops rnd cfg (self, tm) (ev # evs) = run_loops rnd cfg (s1, tm) evs"
      using PollBody b by simp
    have "total_injections s1 \<le> total_injections (fst (fst (run_loops rnd cfg (s1, tm) evs)))"
      using run_loops_injections_mono [of "(s1, tm)" rnd cfg evs] by simp
    with Cons.prems(3) r have le: "total_injections s1 \<le> total_injections self"
      by simp
    with vote_poll_body_injects_or_not [OF b]
    have same: "post_move_screenshot_frames s1 = post_move_screenshot_frames self \<and>
          calls s1 = calls self"
      by auto
    then have n: "0 \<le> post_move_screenshot_frames s1"
      and t: "total_injections s1 = total_injections self"
      using Cons.prems(1) by (simp_all add: total_injections_def)
    from Cons.prems(2) r have e: "snd (run_loops rnd cfg (s1, tm) evs) = None"
      by simp
    from Cons.prems(3) r t
    have i: "total_injections (fst (fst (run_loops rnd cfg (s1, tm) evs))) = total_injections s1"
      by simp
    from Cons.IH [OF n e i] same r PollBody show ?thesis
      by (simp add: post_move_captures_def)
  next
    case (EmulatorBody loop_start audio)
    obtain s1 tm1 where
      b: "emulator_loop_body rnd cfg loop_start audio (self, tm) = (s1, tm1)"
      by (cases "emulator_loop_body rnd cfg loop_start audio (self, tm)")
    have r: "run_loops rnd cfg (self, tm) (ev # evs) = run_loops rnd cfg (s1, tm1) evs"
      using EmulatorBody b by simp
    note step = emulator_loop_body_countdown [OF b]
    note t = emulator_loop_body_injections [OF b]
    from step Cons.prems(1) have n: "0 \<le> post_move_screenshot_frames s1"
      by auto
    from Cons.prems(2) r have e: "snd (run_loops rnd cfg (s1, tm1) evs) = None"
      by simp
    from Cons.prems(3) r t
    have i: "total_injections (fst (fst (run_loops rnd cfg (s1, tm1) evs))) = total_injections s1"
      by simp
    from Cons.IH [OF n e i] step r EmulatorBody Cons.prems(1) show ?thesis
      by auto
  qed
qed


theorem countdown_across_polls_witness:
  "post_move_screenshot_frames (fst (fst (run_loops id
      \<lparr>AUDIO_VOLUME_BOOST = 5, SAVE_STATE_INTERVAL = 300\<rparr>
      (fst (vote_poll_loop fresh_session [Some (poll_result 5 (Some ''a'') 12)]),
       \<lparr>last_screenshot_time = 0, last_auto_save_time = 0\<rparr>)
      [PollBody (Some (poll_result 5 (Some ''a'') 12)), EmulatorBody 0 (NdArray []),
       PollBody (Some (poll_result 6 None 0)), PollBody None,
       EmulatorBody 1 (NdArray [])]))) = 18 \<and>
   post_move_captures (fst (fst (run_loops id
      \<lparr>AUDIO_VOLUME_BOOST = 5, SAVE_STATE_INTERVAL = 300\<rparr>
      (fst (vote_poll_loop fresh_session [Some (poll_result 5 (Some ''a'') 12)]),
       \<lparr>last_screenshot_time = 0, last_auto_save_time = 0\<rparr>)
      [PollBody (Some (poll_result 5 (Some ''a'') 12)), EmulatorBody 0 (NdArray []),
       PollBody (Some (poll_result 6 None 0)), PollBody None,
       EmulatorBody 1 (NdArray [])]))) = 0"
proof -
  let ?cfg = "\<lparr>AUDIO_VOLUME_BOOST = 5, SAVE_STATE_INTERVAL = 300\<rparr>"
  let ?tm = "\<lparr>last_screenshot_time = 0, last_auto_save_time = 0\<rparr>"
  let ?armed = "fst (vote_poll_loop fresh_session [Some (poll_result 5 (Some ''a'') 12)])"
  let ?evs = "[PollBody (Some (poll_result 5 (Some ''a'') 12)), EmulatorBody 0 (NdArray []),
       PollBody (Some (poll_result 6 None 0)), PollBody None, EmulatorBody 1 (NdArray [])]"
  have run: "snd (run_loops id ?cfg (?armed, ?tm) ?evs) = None \<and>
      calls (fst (fst (run_loops id ?cfg (?armed, ?tm) ?evs))) = [Inject (Some 5) ''a'', PeriodicScreenshot]"
    unfolding armed_example
    by (simp add: vote_poll_body_def update_state_from_api_def poll_result_def Let_def
        fresh_session_def ClawPlaysPokemon_init_def emulator_loop_body_def
        SCREENSHOT_UPDATE_INTERVAL_def)
  have h1: "0 \<le> post_move_screenshot_frames ?armed"
    unfolding armed_example by simp
  have h2: "snd (run_loops id ?cfg (?armed, ?tm) ?evs) = None"
    using run by blast
  have h3: "total_injections (fst (fst (run_loops id ?cfg (?armed, ?tm) ?evs)))
      = total_injections ?armed"
    using run unfolding armed_example by (simp add: total_injections_def)
  from countdown_across_polls [OF h1 h2 h3] show ?thesis
    unfolding armed_example by (simp add: post_move_captures_def)
qed

end
